theory Spec2Isabelle
  imports Main "HOL-Library.AList"
begin

section \<open>afkmute: the AFK-mute registry and its event handlers\<close>

text \<open>
  A shallow embedding of \<^verbatim>\<open>afkmute.py\<close>. Members and users are identified by their
  integer id. Every coroutine of the source becomes a function that takes the platform it
  talks to and the state it mutates, and returns its outcome together with the state it
  leaves behind: a Python exception does not roll anything back, so the state is returned
  on the error path as well.
\<close>

subsection \<open>Data\<close>

text \<open>\<^verbatim>\<open>AfkMuteInfo\<close>, the dataclass stored per AFK-muted user.\<close>

record AfkMuteInfo =
  user_id :: int
  muter_id :: int

text \<open>
  The fields of \<^verbatim>\<open>hikari.VoiceState\<close> that the source reads; \<open>member\<close> is the id of
  \<^verbatim>\<open>state.member\<close>.
\<close>

record voice_state =
  member :: int
  channel_id :: "int option"
  is_guild_muted :: bool
  is_self_deafened :: bool
  is_self_muted :: bool
  is_streaming :: bool
  is_video_enabled :: bool

text \<open>\<^verbatim>\<open>hikari.VoiceStateUpdateEvent\<close>: \<open>old_state\<close> is \<open>None\<close> when no previous
  voice state is known.\<close>

record VoiceStateUpdateEvent =
  old_state :: "voice_state option"
  state :: voice_state

text \<open>
  The three events \<^verbatim>\<open>on_member_message_action\<close> listens to. A message event carries
  \<^verbatim>\<open>event.member\<close>, which is optional. A reaction event carries \<^verbatim>\<open>event.user_id\<close>,
  the id of the acting user, which is looked up in the member cache; the reaction events
  that remove the reactions of all users have no such attribute, which is \<open>None\<close> here.
\<close>

datatype message_action =
    GuildMessageCreateEvent "int option"
  | GuildMessageUpdateEvent "int option"
  | GuildReactionEvent "int option"

text \<open>
  The exceptions of the source. \<open>PlatformError\<close> stands for any exception raised by a REST
  call (\<^verbatim>\<open>user.edit\<close>, \<^verbatim>\<open>rest.fetch_member\<close>); \<open>AttributeError\<close> is what
  \<^verbatim>\<open>user.id\<close> raises when the member is \<^verbatim>\<open>None\<close>, and what \<^verbatim>\<open>event.user_id\<close>
  raises on an event without that attribute.
\<close>

datatype error =
    UserAlreadyAfkMuteError
  | UserNotAfkMuteError
  | UserNotInVcError
  | PlatformError
  | AttributeError

text \<open>
  The external platform as one handler invocation sees it:
  \<^item> \<open>get_voice_state\<close> is \<^verbatim>\<open>guild.get_voice_state\<close>, the cached voice state of a user;
  \<^item> \<open>edit_ok u b\<close> tells whether \<^verbatim>\<open>user.edit(mute=b)\<close> succeeds for user \<open>u\<close>;
  \<^item> \<open>fetch_member\<close> is \<^verbatim>\<open>rest.fetch_member\<close>, \<open>None\<close> when the call raises;
  \<^item> \<open>get_member\<close> is \<^verbatim>\<open>bot.cache.get_member\<close>.
\<close>

record platform =
  get_voice_state :: "int \<Rightarrow> voice_state option"
  edit_ok :: "int \<Rightarrow> bool \<Rightarrow> bool"
  fetch_member :: "int \<Rightarrow> int option"
  get_member :: "int \<Rightarrow> int option"

text \<open>
  The state a handler mutates: \<open>cfg\<close> is the guild's \<^verbatim>\<open>g/afk_mute_users\<close> store, and
  \<open>edits\<close> is the trace of \<^verbatim>\<open>edit(mute=...)\<close> calls issued to the platform so far, each
  with the user it was issued for and the mute bit it asked for.
\<close>

record AfkMuteState =
  cfg :: "(int \<times> AfkMuteInfo) list"
  edits :: "(int \<times> bool) list"

type_synonym 'a outcome = "(error + 'a) \<times> AfkMuteState"

subsection \<open>The record store\<close>

text \<open>
  Modelled from the spec: the \<^verbatim>\<open>saru\<close> configuration store behind \<^verbatim>\<open>self.cfg\<close> is
  not part of the source. The spec describes it as a durable mapping from user identifier to
  at most one record with get, set, delete and enumerate. It is modelled as a Python
  dictionary: an association list in insertion order, where setting an existing key
  replaces its value in place and setting a new key appends it. The source keys the store by
  \<^verbatim>\<open>str(user.id)\<close>; since \<^verbatim>\<open>str\<close> is injective on integers the key is the id itself.
\<close>

definition cfg_contains :: "int \<Rightarrow> (int \<times> AfkMuteInfo) list \<Rightarrow> bool" where
  "cfg_contains k c = (map_of c k \<noteq> None)"

definition cfg_set :: "int \<Rightarrow> AfkMuteInfo \<Rightarrow> (int \<times> AfkMuteInfo) list \<Rightarrow> (int \<times> AfkMuteInfo) list" where
  "cfg_set k v c = AList.update k v c"

definition cfg_delete :: "int \<Rightarrow> (int \<times> AfkMuteInfo) list \<Rightarrow> (int \<times> AfkMuteInfo) list" where
  "cfg_delete k c = AList.delete k c"

definition cfg_values :: "(int \<times> AfkMuteInfo) list \<Rightarrow> AfkMuteInfo list" where
  "cfg_values c = map snd c"

subsection \<open>\<^verbatim>\<open>AfkMuteState\<close>\<close>

definition is_afk_mute :: "AfkMuteState \<Rightarrow> int \<Rightarrow> bool" where
  "is_afk_mute s user = cfg_contains user (cfg s)"

definition is_user_in_vc :: "platform \<Rightarrow> int \<Rightarrow> bool" where
  "is_user_in_vc p user = (get_voice_state p user \<noteq> None)"

text \<open>\<^verbatim>\<open>await user.edit(mute=b)\<close>: the call is issued, then succeeds or raises.\<close>

definition member_edit :: "platform \<Rightarrow> int \<Rightarrow> bool \<Rightarrow> AfkMuteState \<Rightarrow> unit outcome" where
  "member_edit p user b s =
     (let s1 = s\<lparr>edits := edits s @ [(user, b)]\<rparr>
      in if edit_ok p user b then (Inr (), s1) else (Inl PlatformError, s1))"

definition set_afk_mute :: "platform \<Rightarrow> int \<Rightarrow> int \<Rightarrow> AfkMuteState \<Rightarrow> AfkMuteInfo outcome" where
  "set_afk_mute p user muter s =
     (if is_afk_mute s user then (Inl UserAlreadyAfkMuteError, s)
      else
        (case (if is_user_in_vc p user then member_edit p user True s else (Inr (), s)) of
           (Inl e, s1) \<Rightarrow> (Inl e, s1)
         | (Inr _, s1) \<Rightarrow>
             (let i = \<lparr>user_id = user, muter_id = muter\<rparr>
              in (Inr i, s1\<lparr>cfg := cfg_set user i (cfg s1)\<rparr>))))"

definition unset_afk_mute :: "platform \<Rightarrow> int \<Rightarrow> bool \<Rightarrow> AfkMuteState \<Rightarrow> unit outcome" where
  "unset_afk_mute p user no_vc_ok s =
     (if \<not> is_afk_mute s user then (Inl UserNotAfkMuteError, s)
      else if \<not> no_vc_ok \<and> \<not> is_user_in_vc p user then (Inl UserNotInVcError, s)
      else
        (case (if \<not> no_vc_ok then member_edit p user False s else (Inr (), s)) of
           (Inl e, s1) \<Rightarrow> (Inl e, s1)
         | (Inr _, s1) \<Rightarrow> (Inr (), s1\<lparr>cfg := cfg_delete user (cfg s1)\<rparr>)))"

text \<open>
  The loop of \<^verbatim>\<open>fetch_afk_mute_state\<close> over \<^verbatim>\<open>info_items\<close>, the list of records
  enumerated before the loop starts. An exception raised in the body leaves the loop.
\<close>

fun fetch_loop :: "platform \<Rightarrow> AfkMuteInfo list \<Rightarrow> AfkMuteState \<Rightarrow> unit outcome" where
  "fetch_loop p [] s = (Inr (), s)"
| "fetch_loop p (info # rest) s =
     (case fetch_member p (user_id info) of
        None \<Rightarrow> (Inl PlatformError, s)
      | Some m \<Rightarrow>
          (case get_voice_state p m of
             None \<Rightarrow> fetch_loop p rest s
           | Some vs \<Rightarrow>
               if \<not> is_guild_muted vs then
                 (case unset_afk_mute p m True s of
                    (Inl e, s1) \<Rightarrow> (Inl e, s1)
                  | (Inr _, s1) \<Rightarrow> fetch_loop p rest s1)
               else fetch_loop p rest s))"

definition fetch_afk_mute_state :: "platform \<Rightarrow> AfkMuteState \<Rightarrow> unit outcome" where
  "fetch_afk_mute_state p s = fetch_loop p (cfg_values (cfg s)) s"

subsection \<open>The voice state listener\<close>

definition manually_unmuted :: "VoiceStateUpdateEvent \<Rightarrow> bool" where
  "manually_unmuted ev =
     (case old_state ev of
        None \<Rightarrow> False
      | Some old \<Rightarrow> is_guild_muted old \<and> \<not> is_guild_muted (state ev))"

definition joined_vc :: "VoiceStateUpdateEvent \<Rightarrow> bool" where
  "joined_vc ev = (old_state ev = None \<and> channel_id (state ev) \<noteq> None)"

definition user_status :: "(voice_state \<Rightarrow> bool) list" where
  "user_status = [is_self_deafened, is_self_muted, is_streaming, is_video_enabled]"

text \<open>The loop over \<^verbatim>\<open>user_status\<close>: the first status that differs unsets and returns.\<close>

fun status_loop ::
  "platform \<Rightarrow> (voice_state \<Rightarrow> bool) list \<Rightarrow> voice_state \<Rightarrow> voice_state \<Rightarrow> AfkMuteState \<Rightarrow> unit outcome"
where
  "status_loop p [] old cur s = (Inr (), s)"
| "status_loop p (status # rest) old cur s =
     (if status old \<noteq> status cur then unset_afk_mute p (member cur) False s
      else status_loop p rest old cur s)"

definition on_voice_state_update :: "platform \<Rightarrow> VoiceStateUpdateEvent \<Rightarrow> AfkMuteState \<Rightarrow> unit outcome" where
  "on_voice_state_update p ev s =
     (if manually_unmuted ev \<and> is_afk_mute s (member (state ev))
      then unset_afk_mute p (member (state ev)) False s
      else
        (case (if joined_vc ev \<and> is_afk_mute s (member (state ev)) \<and> \<not> is_guild_muted (state ev)
               then member_edit p (member (state ev)) True s
               else (Inr (), s)) of
           (Inl e, s1) \<Rightarrow> (Inl e, s1)
         | (Inr _, s1) \<Rightarrow>
             (case old_state ev of
                None \<Rightarrow> (Inr (), s1)
              | Some old \<Rightarrow> status_loop p user_status old (state ev) s1)))"

subsection \<open>The message and reaction listener\<close>

definition event_member :: "platform \<Rightarrow> message_action \<Rightarrow> int option" where
  "event_member p ev =
     (case ev of
        GuildReactionEvent None \<Rightarrow> None
      | GuildReactionEvent (Some uid) \<Rightarrow> get_member p uid
      | GuildMessageCreateEvent m \<Rightarrow> m
      | GuildMessageUpdateEvent m \<Rightarrow> m)"

definition on_member_message_action :: "platform \<Rightarrow> message_action \<Rightarrow> AfkMuteState \<Rightarrow> unit outcome" where
  "on_member_message_action p ev s =
     (case event_member p ev of
        None \<Rightarrow> (Inl AttributeError, s)
      | Some m \<Rightarrow>
          if is_afk_mute s m then
            (case unset_afk_mute p m False s of
               (Inl e, s1) \<Rightarrow> if e = UserNotInVcError then (Inr (), s1) else (Inl e, s1)
             | (Inr u, s1) \<Rightarrow> (Inr u, s1))
          else (Inr (), s))"

subsection \<open>Sequences of registry operations\<close>

text \<open>
  A caller of the registry performs \<^verbatim>\<open>set_afk_mute\<close> and \<^verbatim>\<open>unset_afk_mute\<close> calls one
  after the other, each against the platform as it is at that moment; an exception ends
  the call, not the sequence.
\<close>

datatype registry_op = Apply int int | Clear int bool

fun run_op :: "platform \<Rightarrow> registry_op \<Rightarrow> AfkMuteState \<Rightarrow> AfkMuteState" where
  "run_op p (Apply user muter) s = snd (set_afk_mute p user muter s)"
| "run_op p (Clear user no_vc_ok) s = snd (unset_afk_mute p user no_vc_ok s)"

fun run_ops :: "(platform \<times> registry_op) list \<Rightarrow> AfkMuteState \<Rightarrow> AfkMuteState" where
  "run_ops [] s = s"
| "run_ops ((p, x) # xs) s = run_ops xs (run_op p x s)"

text \<open>
  A store as \<^verbatim>\<open>set_afk_mute\<close> writes it: keys are unique and every record is stored under
  the id of the user it names.
\<close>

definition wf_registry :: "(int \<times> AfkMuteInfo) list \<Rightarrow> bool" where
  "wf_registry c = (distinct (map fst c) \<and> (\<forall>(k, r) \<in> set c. user_id r = k))"

text \<open>A record for the user exists among the records the store enumerates.\<close>

definition record_exists :: "AfkMuteState \<Rightarrow> int \<Rightarrow> bool" where
  "record_exists s user = (\<exists>r \<in> set (cfg_values (cfg s)). user_id r = user)"

subsection \<open>The sweep, as the spec words it\<close>

text \<open>
  The spec's \<open>reconcileAll\<close> calls \<open>clear(user, allowNoPresence=true)\<close> for the users
  whose voice presence exists and is not platform-muted. \<open>drifted\<close> is that condition;
  \<open>reconcileAll_spec\<close> performs the clears one after the other and stops at the first
  that fails.
\<close>

definition drifted :: "platform \<Rightarrow> int \<Rightarrow> bool" where
  "drifted p user =
     (case get_voice_state p user of None \<Rightarrow> False | Some vs \<Rightarrow> \<not> is_guild_muted vs)"

fun reconcileAll_spec :: "platform \<Rightarrow> int list \<Rightarrow> AfkMuteState \<Rightarrow> unit outcome" where
  "reconcileAll_spec p [] s = (Inr (), s)"
| "reconcileAll_spec p (user # users) s =
     (case unset_afk_mute p user True s of
        (Inl e, s1) \<Rightarrow> (Inl e, s1)
      | (Inr _, s1) \<Rightarrow> reconcileAll_spec p users s1)"

text \<open>
  \<^verbatim>\<open>rest.fetch_member\<close>, when it returns, returns the member that was asked for.
\<close>

definition rest_faithful :: "platform \<Rightarrow> bool" where
  "rest_faithful p = (\<forall>u m. fetch_member p u = Some m \<longrightarrow> m = u)"

text \<open>
  The sweep fetches the member of every record before looking at the voice state; a
  record is fetched when \<^verbatim>\<open>rest.fetch_member\<close> returns for its user.
\<close>

definition fetched :: "platform \<Rightarrow> AfkMuteInfo \<Rightarrow> bool" where
  "fetched p r = (fetch_member p (user_id r) \<noteq> None)"

text \<open>
  The store a sweep leaves behind, computed on the store alone: records are visited in
  order, a failing \<^verbatim>\<open>fetch_member\<close> stops the sweep with the rest untouched, and a
  visited record is dropped exactly when its user has drifted.
\<close>

fun sweep_result :: "platform \<Rightarrow> (int \<times> AfkMuteInfo) list \<Rightarrow> (int \<times> AfkMuteInfo) list" where
  "sweep_result p [] = []"
| "sweep_result p ((k, r) # c) =
     (if fetch_member p (user_id r) = None then (k, r) # c
      else if drifted p (user_id r) then sweep_result p c
      else (k, r) # sweep_result p c)"

subsection \<open>Example inputs\<close>

text \<open>
  Concrete voice states, platforms and registries on which the theorems below are
  instantiated: a user in voice channel 7 with no self status set, a platform where nobody
  is in voice, a platform where exactly one user is in voice and every \<^verbatim>\<open>edit\<close> call
  succeeds or fails as given, a platform where every user is in voice and not guild-muted,
  the same platform with \<^verbatim>\<open>fetch_member\<close> raising for one user,
  a registry holding one record, a registry holding the records of users 1 and 3, and the
  empty registry.
\<close>

definition in_voice :: "int \<Rightarrow> bool \<Rightarrow> voice_state" where
  "in_voice u gm = \<lparr>member = u, channel_id = Some 7, is_guild_muted = gm, is_self_deafened = False,
     is_self_muted = False, is_streaming = False, is_video_enabled = False\<rparr>"

definition quiet_platform :: platform where
  "quiet_platform = \<lparr>get_voice_state = (\<lambda>_. None), edit_ok = (\<lambda>_ _. True),
     fetch_member = Some, get_member = Some\<rparr>"

definition voice_platform :: "voice_state \<Rightarrow> bool \<Rightarrow> platform" where
  "voice_platform vs ok = \<lparr>get_voice_state = (\<lambda>u. if u = member vs then Some vs else None),
     edit_ok = (\<lambda>_ _. ok), fetch_member = Some, get_member = Some\<rparr>"

definition open_platform :: platform where
  "open_platform = \<lparr>get_voice_state = (\<lambda>u. Some (in_voice u False)), edit_ok = (\<lambda>_ _. True),
     fetch_member = Some, get_member = Some\<rparr>"

definition unreachable_platform :: "int \<Rightarrow> platform" where
  "unreachable_platform gone = \<lparr>get_voice_state = (\<lambda>u. Some (in_voice u False)),
     edit_ok = (\<lambda>_ _. True), fetch_member = (\<lambda>u. if u = gone then None else Some u),
     get_member = Some\<rparr>"

definition registry_of :: "int \<Rightarrow> int \<Rightarrow> AfkMuteState" where
  "registry_of u m = \<lparr>cfg = [(u, \<lparr>user_id = u, muter_id = m\<rparr>)], edits = []\<rparr>"

definition two_records :: AfkMuteState where
  "two_records = \<lparr>cfg = [(1, \<lparr>user_id = 1, muter_id = 2\<rparr>), (3, \<lparr>user_id = 3, muter_id = 2\<rparr>)],
     edits = []\<rparr>"

definition empty_registry :: AfkMuteState where
  "empty_registry = \<lparr>cfg = [], edits = []\<rparr>"


section \<open>Properties\<close>

subsection \<open>The registry operations, branch by branch\<close>

lemma is_afk_mute_iff: "is_afk_mute s u \<longleftrightarrow> u \<in> fst ` set (cfg s)"
  by (simp add: is_afk_mute_def cfg_contains_def map_of_eq_None_iff)

lemma set_afk_mute_cases:
  "set_afk_mute p user muter s =
     (if is_afk_mute s user then (Inl UserAlreadyAfkMuteError, s)
      else if \<not> is_user_in_vc p user then
        (Inr \<lparr>user_id = user, muter_id = muter\<rparr>,
         s\<lparr>cfg := cfg_set user \<lparr>user_id = user, muter_id = muter\<rparr> (cfg s)\<rparr>)
      else if edit_ok p user True then
        (Inr \<lparr>user_id = user, muter_id = muter\<rparr>,
         s\<lparr>cfg := cfg_set user \<lparr>user_id = user, muter_id = muter\<rparr> (cfg s),
           edits := edits s @ [(user, True)]\<rparr>)
      else (Inl PlatformError, s\<lparr>edits := edits s @ [(user, True)]\<rparr>))"
  by (simp add: set_afk_mute_def member_edit_def Let_def)

lemma unset_afk_mute_cases:
  "unset_afk_mute p user no_vc_ok s =
     (if \<not> is_afk_mute s user then (Inl UserNotAfkMuteError, s)
      else if no_vc_ok then (Inr (), s\<lparr>cfg := cfg_delete user (cfg s)\<rparr>)
      else if \<not> is_user_in_vc p user then (Inl UserNotInVcError, s)
      else if edit_ok p user False then
        (Inr (), s\<lparr>cfg := cfg_delete user (cfg s), edits := edits s @ [(user, False)]\<rparr>)
      else (Inl PlatformError, s\<lparr>edits := edits s @ [(user, False)]\<rparr>))"
  by (simp add: unset_afk_mute_def member_edit_def Let_def)

lemma is_afk_mute_cfg_set: "is_afk_mute (s\<lparr>cfg := cfg_set u i (cfg s)\<rparr>) v \<longleftrightarrow> v = u \<or> is_afk_mute s v"
  by (auto simp: is_afk_mute_def cfg_contains_def cfg_set_def update_conv')

lemma is_afk_mute_cfg_delete: "is_afk_mute (s\<lparr>cfg := cfg_delete u (cfg s)\<rparr>) v \<longleftrightarrow> v \<noteq> u \<and> is_afk_mute s v"
  by (auto simp: is_afk_mute_def cfg_contains_def cfg_delete_def delete_conv')

lemma is_afk_mute_edits [simp]: "is_afk_mute (s\<lparr>edits := e\<rparr>) v = is_afk_mute s v"
  by (simp add: is_afk_mute_def)


subsection \<open>The example inputs, evaluated\<close>

lemma fixture_is_afk_mute [simp]:
  "is_afk_mute (registry_of u m) v = (v = u)"
  "is_afk_mute empty_registry v = False"
  by (simp_all add: is_afk_mute_def cfg_contains_def registry_of_def empty_registry_def)

lemma fixture_is_user_in_vc [simp]:
  "is_user_in_vc quiet_platform v = False"
  "is_user_in_vc (voice_platform vs ok) v = (v = member vs)"
  by (simp_all add: is_user_in_vc_def quiet_platform_def voice_platform_def)

lemma fixture_edit_ok [simp]:
  "edit_ok quiet_platform v b = True"
  "edit_ok (voice_platform vs ok) v b = ok"
  by (simp_all add: quiet_platform_def voice_platform_def)

lemma fixture_member [simp]: "member (in_voice u gm) = u"
  by (simp add: in_voice_def)

subsection \<open>\<^verbatim>\<open>set_afk_mute\<close>\<close>

lemma set_afk_mute_InrD:
  assumes "set_afk_mute p user muter s = (Inr i, s')"
  shows "i = \<lparr>user_id = user, muter_id = muter\<rparr>"
    and "cfg s' = cfg_set user i (cfg s)"
    and "\<not> is_afk_mute s user"
proof -
  have a: "\<not> is_afk_mute s user"
    using assms by (cases "is_afk_mute s user") (simp_all add: set_afk_mute_cases)
  show "\<not> is_afk_mute s user" by (rule a)
  show "i = \<lparr>user_id = user, muter_id = muter\<rparr>"
    using assms a
    by (cases "is_user_in_vc p user"; cases "edit_ok p user True") (simp_all add: set_afk_mute_cases)
  then show "cfg s' = cfg_set user i (cfg s)"
    using assms a
    by (cases "is_user_in_vc p user"; cases "edit_ok p user True") (auto simp add: set_afk_mute_cases)
qed


lemma set_afk_mute_twice:
  assumes "set_afk_mute p user muter s = (Inr i, s')"
  shows "set_afk_mute p' user muter' s' = (Inl UserAlreadyAfkMuteError, s')"
proof -
  have "cfg s' = cfg_set user i (cfg s)"
    using assms by (rule set_afk_mute_InrD(2))
  then have "is_afk_mute s' user"
    by (simp add: is_afk_mute_def cfg_contains_def cfg_set_def update_conv')
  then show ?thesis
    by (simp add: set_afk_mute_cases)
qed

text \<open>
  C2. The full postcondition of \<^verbatim>\<open>set_afk_mute\<close> (\<open>apply\<close>). If the user already has
  a record, it raises \<open>UserAlreadyAfkMuteError\<close> and leaves the state as it is. Otherwise an
  \<^verbatim>\<open>edit(mute=True)\<close> call is issued exactly when the user is in voice: when the user
  is not in voice the trace of platform calls does not grow; when the call raises, the
  error is passed on and the store is not written. On success the record
  \<open>\<lparr>user_id = user, muter_id = muter\<rparr>\<close> is returned and stored under the user's key, every
  other key keeps its value, \<open>is_afk_mute\<close> holds for the user, and a further
  \<^verbatim>\<open>set_afk_mute\<close> for that user raises \<open>UserAlreadyAfkMuteError\<close> without changing
  anything, whatever the platform and the muter.
\<close>

theorem set_afk_mute_postcondition:
  "(is_afk_mute s user \<longrightarrow>
      set_afk_mute p user muter s = (Inl UserAlreadyAfkMuteError, s)) \<and>
   (\<not> is_afk_mute s user \<and> \<not> is_user_in_vc p user \<longrightarrow>
      set_afk_mute p user muter s =
        (Inr \<lparr>user_id = user, muter_id = muter\<rparr>,
         s\<lparr>cfg := cfg_set user \<lparr>user_id = user, muter_id = muter\<rparr> (cfg s)\<rparr>)) \<and>
   (\<not> is_afk_mute s user \<and> is_user_in_vc p user \<and> edit_ok p user True \<longrightarrow>
      set_afk_mute p user muter s =
        (Inr \<lparr>user_id = user, muter_id = muter\<rparr>,
         s\<lparr>cfg := cfg_set user \<lparr>user_id = user, muter_id = muter\<rparr> (cfg s),
           edits := edits s @ [(user, True)]\<rparr>)) \<and>
   (\<not> is_afk_mute s user \<and> is_user_in_vc p user \<and> \<not> edit_ok p user True \<longrightarrow>
      set_afk_mute p user muter s = (Inl PlatformError, s\<lparr>edits := edits s @ [(user, True)]\<rparr>)) \<and>
   (\<forall>i s'. set_afk_mute p user muter s = (Inr i, s') \<longrightarrow>
      i = \<lparr>user_id = user, muter_id = muter\<rparr> \<and>
      is_afk_mute s' user \<and>
      map_of (cfg s') = (map_of (cfg s))(user \<mapsto> i) \<and>
      (\<forall>p' muter'. set_afk_mute p' user muter' s' = (Inl UserAlreadyAfkMuteError, s')))"
proof (intro conjI allI impI)
  fix i s' assume ok: "set_afk_mute p user muter s = (Inr i, s')"
  show "i = \<lparr>user_id = user, muter_id = muter\<rparr>"
    using ok by (rule set_afk_mute_InrD(1))
  have c: "cfg s' = cfg_set user i (cfg s)"
    using ok by (rule set_afk_mute_InrD(2))
  show "is_afk_mute s' user"
    using c by (simp add: is_afk_mute_def cfg_contains_def cfg_set_def update_conv')
  show "map_of (cfg s') = (map_of (cfg s))(user \<mapsto> i)"
    using c by (simp add: cfg_set_def update_conv')
  show "set_afk_mute p' user muter' s' = (Inl UserAlreadyAfkMuteError, s')" for p' muter'
    using ok by (rule set_afk_mute_twice)
qed (simp_all add: set_afk_mute_cases)


theorem set_afk_mute_postcondition_witness:
  "set_afk_mute quiet_platform 1 2 (registry_of 1 3) = (Inl UserAlreadyAfkMuteError, registry_of 1 3) \<and>
   set_afk_mute quiet_platform 1 2 empty_registry = (Inr \<lparr>user_id = 1, muter_id = 2\<rparr>, registry_of 1 2) \<and>
   set_afk_mute (voice_platform (in_voice 1 False) True) 1 2 empty_registry =
     (Inr \<lparr>user_id = 1, muter_id = 2\<rparr>, (registry_of 1 2)\<lparr>edits := [(1, True)]\<rparr>) \<and>
   set_afk_mute (voice_platform (in_voice 1 False) False) 1 2 empty_registry =
     (Inl PlatformError, empty_registry\<lparr>edits := [(1, True)]\<rparr>) \<and>
   is_afk_mute (registry_of 1 2) 1"
proof (intro conjI)
  show "set_afk_mute quiet_platform 1 2 (registry_of 1 3) = (Inl UserAlreadyAfkMuteError, registry_of 1 3)"
    using set_afk_mute_postcondition [of "registry_of 1 3" 1 quiet_platform 2, THEN conjunct1]
    by simp
  have "set_afk_mute quiet_platform 1 2 empty_registry =
      (Inr \<lparr>user_id = 1, muter_id = 2\<rparr>,
       empty_registry\<lparr>cfg := cfg_set 1 \<lparr>user_id = 1, muter_id = 2\<rparr> (cfg empty_registry)\<rparr>)"
    using set_afk_mute_postcondition [of empty_registry 1 quiet_platform 2, THEN conjunct2, THEN conjunct1]
    by simp
  then show "set_afk_mute quiet_platform 1 2 empty_registry =
      (Inr \<lparr>user_id = 1, muter_id = 2\<rparr>, registry_of 1 2)"
    by (simp add: empty_registry_def registry_of_def cfg_set_def)
  have "set_afk_mute (voice_platform (in_voice 1 False) True) 1 2 empty_registry =
      (Inr \<lparr>user_id = 1, muter_id = 2\<rparr>,
       empty_registry\<lparr>cfg := cfg_set 1 \<lparr>user_id = 1, muter_id = 2\<rparr> (cfg empty_registry),
         edits := edits empty_registry @ [(1, True)]\<rparr>)"
    using set_afk_mute_postcondition [of empty_registry 1 "voice_platform (in_voice 1 False) True" 2,
        THEN conjunct2, THEN conjunct2, THEN conjunct1]
    by simp
  then show "set_afk_mute (voice_platform (in_voice 1 False) True) 1 2 empty_registry =
     (Inr \<lparr>user_id = 1, muter_id = 2\<rparr>, (registry_of 1 2)\<lparr>edits := [(1, True)]\<rparr>)"
    by (simp add: empty_registry_def registry_of_def cfg_set_def)
  have "set_afk_mute (voice_platform (in_voice 1 False) False) 1 2 empty_registry =
      (Inl PlatformError, empty_registry\<lparr>edits := edits empty_registry @ [(1, True)]\<rparr>)"
    using set_afk_mute_postcondition [of empty_registry 1 "voice_platform (in_voice 1 False) False" 2,
        THEN conjunct2, THEN conjunct2, THEN conjunct2, THEN conjunct1]
    by simp
  then show "set_afk_mute (voice_platform (in_voice 1 False) False) 1 2 empty_registry =
     (Inl PlatformError, empty_registry\<lparr>edits := [(1, True)]\<rparr>)"
    by (simp add: empty_registry_def)
  show "is_afk_mute (registry_of 1 2) 1" by simp
qed


subsection \<open>\<^verbatim>\<open>unset_afk_mute\<close>\<close>

lemma unset_afk_mute_OkD:
  assumes "unset_afk_mute p user no_vc_ok s = (Inr u, s')"
  shows "cfg s' = cfg_delete user (cfg s)" and "is_afk_mute s user"
proof -
  show a: "is_afk_mute s user"
    using assms by (cases "is_afk_mute s user") (simp_all add: unset_afk_mute_cases)
  show "cfg s' = cfg_delete user (cfg s)"
    using assms a
    by (cases no_vc_ok; cases "is_user_in_vc p user"; cases "edit_ok p user False")
       (auto simp add: unset_afk_mute_cases)
qed

lemma unset_afk_mute_twice:
  assumes "unset_afk_mute p user no_vc_ok s = (Inr u, s')"
  shows "unset_afk_mute p' user b s' = (Inl UserNotAfkMuteError, s')"
proof -
  have "cfg s' = cfg_delete user (cfg s)"
    using assms by (rule unset_afk_mute_OkD(1))
  then have "\<not> is_afk_mute s' user"
    by (simp add: is_afk_mute_def cfg_contains_def cfg_delete_def delete_conv')
  then show ?thesis
    by (simp add: unset_afk_mute_cases)
qed

text \<open>
  C3, as the code has it. The postcondition of \<^verbatim>\<open>unset_afk_mute\<close> (\<open>clear\<close>). Without a
  record for the user it raises \<open>UserNotAfkMuteError\<close>; with a record, \<open>no_vc_ok\<close> false
  and the user not in voice it raises \<open>UserNotInVcError\<close>; both leave the state as it is.
  Otherwise the \<^verbatim>\<open>edit(mute=False)\<close> call is issued exactly when \<open>no_vc_ok\<close> is false:
  with \<open>no_vc_ok\<close> true no platform call is issued, whether or not the user is in voice,
  and the record is deleted; with \<open>no_vc_ok\<close> false the call is issued, the record is
  deleted when it succeeds, and when it raises the error is passed on and the record stays.
  After a successful call the user has no record, every other key keeps its value, and a
  further \<^verbatim>\<open>unset_afk_mute\<close> for that user raises \<open>UserNotAfkMuteError\<close>.
\<close>

theorem unset_afk_mute_postcondition:
  "(\<not> is_afk_mute s user \<longrightarrow>
      unset_afk_mute p user no_vc_ok s = (Inl UserNotAfkMuteError, s)) \<and>
   (is_afk_mute s user \<and> \<not> no_vc_ok \<and> \<not> is_user_in_vc p user \<longrightarrow>
      unset_afk_mute p user no_vc_ok s = (Inl UserNotInVcError, s)) \<and>
   (is_afk_mute s user \<and> no_vc_ok \<longrightarrow>
      unset_afk_mute p user no_vc_ok s = (Inr (), s\<lparr>cfg := cfg_delete user (cfg s)\<rparr>)) \<and>
   (is_afk_mute s user \<and> \<not> no_vc_ok \<and> is_user_in_vc p user \<and> edit_ok p user False \<longrightarrow>
      unset_afk_mute p user no_vc_ok s =
        (Inr (), s\<lparr>cfg := cfg_delete user (cfg s), edits := edits s @ [(user, False)]\<rparr>)) \<and>
   (is_afk_mute s user \<and> \<not> no_vc_ok \<and> is_user_in_vc p user \<and> \<not> edit_ok p user False \<longrightarrow>
      unset_afk_mute p user no_vc_ok s =
        (Inl PlatformError, s\<lparr>edits := edits s @ [(user, False)]\<rparr>)) \<and>
   (\<forall>s'. unset_afk_mute p user no_vc_ok s = (Inr (), s') \<longrightarrow>
      \<not> is_afk_mute s' user \<and>
      map_of (cfg s') = (map_of (cfg s))(user := None) \<and>
      (\<forall>p' b. unset_afk_mute p' user b s' = (Inl UserNotAfkMuteError, s')))"
proof (intro conjI allI impI)
  fix s' assume ok: "unset_afk_mute p user no_vc_ok s = (Inr (), s')"
  have c: "cfg s' = cfg_delete user (cfg s)"
    using ok by (rule unset_afk_mute_OkD(1))
  show "\<not> is_afk_mute s' user"
    using c by (simp add: is_afk_mute_def cfg_contains_def cfg_delete_def delete_conv')
  show "map_of (cfg s') = (map_of (cfg s))(user := None)"
    using c by (simp add: cfg_delete_def delete_conv')
  show "unset_afk_mute p' user b s' = (Inl UserNotAfkMuteError, s')" for p' b
    using ok by (rule unset_afk_mute_twice)
qed (simp_all add: unset_afk_mute_cases)

theorem unset_afk_mute_postcondition_witness:
  "unset_afk_mute quiet_platform 1 False empty_registry = (Inl UserNotAfkMuteError, empty_registry) \<and>
   unset_afk_mute quiet_platform 1 False (registry_of 1 2) = (Inl UserNotInVcError, registry_of 1 2) \<and>
   unset_afk_mute quiet_platform 1 True (registry_of 1 2) = (Inr (), empty_registry) \<and>
   unset_afk_mute (voice_platform (in_voice 1 True) True) 1 False (registry_of 1 2) =
     (Inr (), empty_registry\<lparr>edits := [(1, False)]\<rparr>) \<and>
   unset_afk_mute (voice_platform (in_voice 1 True) False) 1 False (registry_of 1 2) =
     (Inl PlatformError, (registry_of 1 2)\<lparr>edits := [(1, False)]\<rparr>)"
proof (intro conjI)
  show "unset_afk_mute quiet_platform 1 False empty_registry = (Inl UserNotAfkMuteError, empty_registry)"
    using unset_afk_mute_postcondition [of empty_registry 1 quiet_platform False, THEN conjunct1]
    by simp
  show "unset_afk_mute quiet_platform 1 False (registry_of 1 2) = (Inl UserNotInVcError, registry_of 1 2)"
    using unset_afk_mute_postcondition [of "registry_of 1 2" 1 quiet_platform False,
        THEN conjunct2, THEN conjunct1]
    by simp
  have "unset_afk_mute quiet_platform 1 True (registry_of 1 2) =
      (Inr (), (registry_of 1 2)\<lparr>cfg := cfg_delete 1 (cfg (registry_of 1 2))\<rparr>)"
    using unset_afk_mute_postcondition [of "registry_of 1 2" 1 quiet_platform True,
        THEN conjunct2, THEN conjunct2, THEN conjunct1]
    by simp
  then show "unset_afk_mute quiet_platform 1 True (registry_of 1 2) = (Inr (), empty_registry)"
    by (simp add: registry_of_def empty_registry_def cfg_delete_def)
  have "unset_afk_mute (voice_platform (in_voice 1 True) True) 1 False (registry_of 1 2) =
      (Inr (), (registry_of 1 2)\<lparr>cfg := cfg_delete 1 (cfg (registry_of 1 2)),
         edits := edits (registry_of 1 2) @ [(1, False)]\<rparr>)"
    using unset_afk_mute_postcondition [of "registry_of 1 2" 1 "voice_platform (in_voice 1 True) True" False,
        THEN conjunct2, THEN conjunct2, THEN conjunct2, THEN conjunct1]
    by simp
  then show "unset_afk_mute (voice_platform (in_voice 1 True) True) 1 False (registry_of 1 2) =
     (Inr (), empty_registry\<lparr>edits := [(1, False)]\<rparr>)"
    by (simp add: registry_of_def empty_registry_def cfg_delete_def)
  have "unset_afk_mute (voice_platform (in_voice 1 True) False) 1 False (registry_of 1 2) =
      (Inl PlatformError, (registry_of 1 2)\<lparr>edits := edits (registry_of 1 2) @ [(1, False)]\<rparr>)"
    using unset_afk_mute_postcondition [of "registry_of 1 2" 1 "voice_platform (in_voice 1 True) False" False,
        THEN conjunct2, THEN conjunct2, THEN conjunct2, THEN conjunct2, THEN conjunct1]
    by simp
  then show "unset_afk_mute (voice_platform (in_voice 1 True) False) 1 False (registry_of 1 2) =
     (Inl PlatformError, (registry_of 1 2)\<lparr>edits := [(1, False)]\<rparr>)"
    by (simp add: registry_of_def)
qed

text \<open>
  C3 as stated asks for an unmute call whenever the user is in voice, also when
  \<open>no_vc_ok\<close> is true. User 1 has a record and is in voice; with \<open>no_vc_ok\<close> true the
  record is deleted and the trace of platform calls stays empty.
\<close>

theorem unset_afk_mute_unmute_counterexample:
  "is_afk_mute (registry_of 1 2) 1 \<and>
   is_user_in_vc (voice_platform (in_voice 1 True) True) 1 \<and>
   unset_afk_mute (voice_platform (in_voice 1 True) True) 1 True (registry_of 1 2) = (Inr (), empty_registry) \<and>
   edits empty_registry = []"
  by (simp add: unset_afk_mute_cases) (simp add: registry_of_def empty_registry_def cfg_delete_def)


subsection \<open>\<^verbatim>\<open>on_voice_state_update\<close>\<close>

lemma status_loop_no_change:
  "\<forall>f \<in> set fs. f old = f cur \<Longrightarrow> status_loop p fs old cur s = (Inr (), s)"
  by (induction fs) simp_all

lemma status_loop_change:
  assumes "\<exists>f \<in> set fs. f old \<noteq> f cur"
  shows "status_loop p fs old cur s = unset_afk_mute p (member cur) False s"
  using assms
proof (induction fs)
  case Nil
  then show ?case by simp
next
  case (Cons g fs)
  show ?case
  proof (cases "g old = g cur")
    case True
    with Cons.prems have "\<exists>f \<in> set fs. f old \<noteq> f cur"
      by auto
    then have "status_loop p fs old cur s = unset_afk_mute p (member cur) False s"
      by (rule Cons.IH)
    with True show ?thesis by simp
  next
    case False
    then show ?thesis by simp
  qed
qed

lemma member_edit_eq:
  "member_edit p user b s =
     (if edit_ok p user b then Inr () else Inl PlatformError, s\<lparr>edits := edits s @ [(user, b)]\<rparr>)"
  by (simp add: member_edit_def Let_def)

lemma unset_afk_mute_edits:
  "edits (snd (unset_afk_mute p user False s)) = edits s \<or>
   edits (snd (unset_afk_mute p user False s)) = edits s @ [(user, False)]"
  by (simp add: unset_afk_mute_cases)

text \<open>
  C5. Rule 1, the manually removed mute. When the event has an old state that is guild-muted,
  the new state is not guild-muted, and the member has a record, the listener performs
  exactly \<^verbatim>\<open>unset_afk_mute(member)\<close> with \<open>no_vc_ok\<close> false and returns: its outcome and
  final state are those of that one call, so the join repair and the status loop are not
  run, and the event adds at most one platform call, an unmute.
\<close>

theorem manual_unmute_clears:
  assumes "old_state ev = Some old" and "is_guild_muted old" and "\<not> is_guild_muted (state ev)"
    and "is_afk_mute s (member (state ev))"
  shows "on_voice_state_update p ev s = unset_afk_mute p (member (state ev)) False s \<and>
    (edits (snd (on_voice_state_update p ev s)) = edits s \<or>
     edits (snd (on_voice_state_update p ev s)) = edits s @ [(member (state ev), False)])"
proof -
  have "manually_unmuted ev"
    using assms(1-3) by (simp add: manually_unmuted_def)
  with assms(4) have "on_voice_state_update p ev s = unset_afk_mute p (member (state ev)) False s"
    by (simp add: on_voice_state_update_def)
  then show ?thesis
    using unset_afk_mute_edits [of p "member (state ev)" s] by simp
qed

theorem manual_unmute_clears_witness:
  "on_voice_state_update (voice_platform (in_voice 1 False) True)
     \<lparr>old_state = Some (in_voice 1 True), state = (in_voice 1 False)\<lparr>is_self_muted := True\<rparr>\<rparr>
     (registry_of 1 2) = (Inr (), empty_registry\<lparr>edits := [(1, False)]\<rparr>)"
proof -
  let ?p = "voice_platform (in_voice 1 False) True"
  let ?ev = "\<lparr>old_state = Some (in_voice 1 True), state = (in_voice 1 False)\<lparr>is_self_muted := True\<rparr>\<rparr>"
  have "on_voice_state_update ?p ?ev (registry_of 1 2) =
      unset_afk_mute ?p (member (state ?ev)) False (registry_of 1 2)"
    using manual_unmute_clears [of ?ev "in_voice 1 True" "registry_of 1 2" ?p, THEN conjunct1]
    by (simp add: in_voice_def)
  also have "member (state ?ev) = 1"
    by (simp add: in_voice_def)
  also have "unset_afk_mute ?p 1 False (registry_of 1 2) = (Inr (), empty_registry\<lparr>edits := [(1, False)]\<rparr>)"
    by (simp add: unset_afk_mute_cases) (simp add: registry_of_def empty_registry_def cfg_delete_def)
  finally show ?thesis .
qed

text \<open>
  The parts of rule 3 that the listener does implement: with an old state and any of the
  four self statuses changed, the event is handled by one \<^verbatim>\<open>unset_afk_mute(member)\<close>
  with \<open>no_vc_ok\<close> false; with an old state, rule 1 not applying and none of the four
  changed, nothing happens, whatever \<open>channel_id\<close> does.
\<close>

lemma status_change_clears:
  assumes "old_state ev = Some old"
    and "is_self_deafened old \<noteq> is_self_deafened (state ev) \<or>
         is_self_muted old \<noteq> is_self_muted (state ev) \<or>
         is_streaming old \<noteq> is_streaming (state ev) \<or>
         is_video_enabled old \<noteq> is_video_enabled (state ev)"
  shows "on_voice_state_update p ev s = unset_afk_mute p (member (state ev)) False s"
proof -
  have "\<exists>f \<in> set user_status. f old \<noteq> f (state ev)"
    using assms(2) by (auto simp: user_status_def)
  then have "status_loop p user_status old (state ev) s = unset_afk_mute p (member (state ev)) False s"
    by (rule status_loop_change)
  then show ?thesis
    using assms(1) by (simp add: on_voice_state_update_def joined_vc_def)
qed

lemma no_status_change_no_action:
  assumes "old_state ev = Some old"
    and "\<not> (is_guild_muted old \<and> \<not> is_guild_muted (state ev) \<and> is_afk_mute s (member (state ev)))"
    and "is_self_deafened old = is_self_deafened (state ev)"
    and "is_self_muted old = is_self_muted (state ev)"
    and "is_streaming old = is_streaming (state ev)"
    and "is_video_enabled old = is_video_enabled (state ev)"
  shows "on_voice_state_update p ev s = (Inr (), s)"
proof -
  have "\<forall>f \<in> set user_status. f old = f (state ev)"
    using assms(3-6) by (simp add: user_status_def)
  then have "status_loop p user_status old (state ev) s = (Inr (), s)"
    by (rule status_loop_no_change)
  then show ?thesis
    using assms(1,2) by (auto simp add: on_voice_state_update_def joined_vc_def manually_unmuted_def)
qed

text \<open>
  C6. The claim ends with: when the member is not AFK-muted the event results in no action
  and no error. The status loop calls \<^verbatim>\<open>unset_afk_mute\<close> without asking
  \<^verbatim>\<open>is_afk_mute\<close> first, unlike rule 1 and unlike the message listener. User 1 has no
  record and is in voice; the event reports that the user has self-muted, and the
  listener raises \<open>UserNotAfkMuteError\<close>.
\<close>

theorem status_change_without_record_raises:
  "\<not> is_afk_mute empty_registry 1 \<and>
   on_voice_state_update (voice_platform ((in_voice 1 False)\<lparr>is_self_muted := True\<rparr>) True)
     \<lparr>old_state = Some (in_voice 1 False), state = (in_voice 1 False)\<lparr>is_self_muted := True\<rparr>\<rparr>
     empty_registry = (Inl UserNotAfkMuteError, empty_registry)"
proof -
  let ?ev = "\<lparr>old_state = Some (in_voice 1 False), state = (in_voice 1 False)\<lparr>is_self_muted := True\<rparr>\<rparr>"
  have "on_voice_state_update p ?ev empty_registry =
      unset_afk_mute p (member (state ?ev)) False empty_registry" for p
    by (rule status_change_clears [of ?ev "in_voice 1 False"]) (simp_all add: in_voice_def)
  then show ?thesis
    by (simp add: unset_afk_mute_cases)
qed

text \<open>
  C7, as the code has it. Rule 2, the join while muted. When the event has no old state,
  the new state has a channel, the member has a record and the new state is not
  guild-muted, the listener issues \<^verbatim>\<open>edit(mute=True)\<close> for the member directly and
  returns: the store is left as it is, so the record is neither replaced nor duplicated,
  the outcome is success or the failure of that call, never \<open>UserAlreadyAfkMuteError\<close>.
\<close>

theorem join_while_muted_repairs:
  assumes "old_state ev = None" and "channel_id (state ev) \<noteq> None"
    and "is_afk_mute s (member (state ev))" and "\<not> is_guild_muted (state ev)"
  shows "on_voice_state_update p ev s =
      (if edit_ok p (member (state ev)) True then Inr () else Inl PlatformError,
       s\<lparr>edits := edits s @ [(member (state ev), True)]\<rparr>) \<and>
    cfg (snd (on_voice_state_update p ev s)) = cfg s \<and>
    fst (on_voice_state_update p ev s) \<noteq> Inl UserAlreadyAfkMuteError"
proof -
  have "joined_vc ev" and "\<not> manually_unmuted ev"
    using assms(1,2) by (simp_all add: joined_vc_def manually_unmuted_def)
  then have "on_voice_state_update p ev s =
      (if edit_ok p (member (state ev)) True then Inr () else Inl PlatformError,
       s\<lparr>edits := edits s @ [(member (state ev), True)]\<rparr>)"
    using assms(1,3,4) by (simp add: on_voice_state_update_def member_edit_eq)
  then show ?thesis by simp
qed

theorem join_while_muted_repairs_witness:
  "on_voice_state_update (voice_platform (in_voice 1 False) True)
     \<lparr>old_state = None, state = in_voice 1 False\<rparr> (registry_of 1 2) =
   (Inr (), (registry_of 1 2)\<lparr>edits := [(1, True)]\<rparr>)"
  using join_while_muted_repairs [of "\<lparr>old_state = None, state = in_voice 1 False\<rparr>" "registry_of 1 2"
      "voice_platform (in_voice 1 False) True", THEN conjunct1]
  by (simp add: in_voice_def) (simp add: registry_of_def)

text \<open>
  C7 as stated covers every event without an old state. The source also asks for
  \<^verbatim>\<open>event.state.channel_id is not None\<close>: for an event without an old state and
  without a channel, user 1 with a record and not guild-muted, no platform call is issued.
\<close>

theorem join_without_channel_counterexample:
  "old_state \<lparr>old_state = None, state = (in_voice 1 False)\<lparr>channel_id := None\<rparr>\<rparr> = None \<and>
   is_afk_mute (registry_of 1 2) 1 \<and>
   \<not> is_guild_muted ((in_voice 1 False)\<lparr>channel_id := None\<rparr>) \<and>
   on_voice_state_update quiet_platform
     \<lparr>old_state = None, state = (in_voice 1 False)\<lparr>channel_id := None\<rparr>\<rparr> (registry_of 1 2) =
   (Inr (), registry_of 1 2) \<and>
   edits (registry_of 1 2) = []"
  by (simp add: on_voice_state_update_def joined_vc_def manually_unmuted_def in_voice_def)
     (simp add: registry_of_def)


subsection \<open>\<^verbatim>\<open>on_member_message_action\<close>\<close>

text \<open>
  C4, as the code has it. For a message or reaction event whose member is known (the
  message event carries its member, the reacting user is found in the member cache), the
  listener calls \<^verbatim>\<open>unset_afk_mute(member)\<close> with \<open>no_vc_ok\<close> false when the member has a
  record, and swallows \<open>UserNotInVcError\<close>. So for a member with a record who is not in
  voice it returns normally with the state as it was: the record stays and no platform
  call is issued. For a member with a record who is in voice it does what
  \<^verbatim>\<open>unset_afk_mute\<close> with \<open>no_vc_ok\<close> false does. For a member without a record it does
  nothing. It never raises \<open>UserNotInVcError\<close>.
\<close>

theorem on_member_message_action_clears:
  assumes "event_member p ev = Some m"
  shows "(is_afk_mute s m \<and> \<not> is_user_in_vc p m \<longrightarrow>
            on_member_message_action p ev s = (Inr (), s)) \<and>
         (is_afk_mute s m \<and> is_user_in_vc p m \<longrightarrow>
            on_member_message_action p ev s = unset_afk_mute p m False s) \<and>
         (\<not> is_afk_mute s m \<longrightarrow> on_member_message_action p ev s = (Inr (), s)) \<and>
         fst (on_member_message_action p ev s) \<noteq> Inl UserNotInVcError"
  using assms by (simp add: on_member_message_action_def unset_afk_mute_cases)

theorem on_member_message_action_clears_witness:
  "on_member_message_action quiet_platform (GuildMessageCreateEvent (Some 1)) (registry_of 1 2) =
     (Inr (), registry_of 1 2) \<and>
   on_member_message_action (voice_platform (in_voice 1 True) True) (GuildReactionEvent (Some 1)) (registry_of 1 2) =
     (Inr (), empty_registry\<lparr>edits := [(1, False)]\<rparr>) \<and>
   on_member_message_action quiet_platform (GuildMessageUpdateEvent (Some 1)) empty_registry =
     (Inr (), empty_registry)"
proof (intro conjI)
  have m1: "event_member quiet_platform (GuildMessageCreateEvent (Some 1)) = Some 1"
    by (simp add: event_member_def)
  show "on_member_message_action quiet_platform (GuildMessageCreateEvent (Some 1)) (registry_of 1 2) =
     (Inr (), registry_of 1 2)"
    using on_member_message_action_clears [OF m1, of "registry_of 1 2", THEN conjunct1]
    by simp
  have m2: "event_member (voice_platform (in_voice 1 True) True) (GuildReactionEvent (Some 1)) = Some 1"
    by (simp add: event_member_def voice_platform_def)
  have "on_member_message_action (voice_platform (in_voice 1 True) True) (GuildReactionEvent (Some 1)) (registry_of 1 2) =
      unset_afk_mute (voice_platform (in_voice 1 True) True) 1 False (registry_of 1 2)"
    using on_member_message_action_clears [OF m2, of "registry_of 1 2", THEN conjunct2, THEN conjunct1]
    by simp
  also have "\<dots> = (Inr (), empty_registry\<lparr>edits := [(1, False)]\<rparr>)"
    by (simp add: unset_afk_mute_cases) (simp add: registry_of_def empty_registry_def cfg_delete_def)
  finally show "on_member_message_action (voice_platform (in_voice 1 True) True) (GuildReactionEvent (Some 1))
      (registry_of 1 2) = (Inr (), empty_registry\<lparr>edits := [(1, False)]\<rparr>)" .
  have m3: "event_member quiet_platform (GuildMessageUpdateEvent (Some 1)) = Some 1"
    by (simp add: event_member_def)
  show "on_member_message_action quiet_platform (GuildMessageUpdateEvent (Some 1)) empty_registry =
     (Inr (), empty_registry)"
    using on_member_message_action_clears [OF m3, of empty_registry, THEN conjunct2, THEN conjunct2, THEN conjunct1]
    by simp
qed

text \<open>
  C4 as stated has the listener clear with \<open>allowNoPresence\<close> true, deleting the record
  of a user who is not in voice. User 1 has a record and is not in voice and posts a
  message: the listener returns normally and the record is still there, whereas
  \<^verbatim>\<open>unset_afk_mute\<close> with \<open>no_vc_ok\<close> true would have deleted it.
\<close>

theorem message_without_presence_counterexample:
  "is_afk_mute (registry_of 1 2) 1 \<and>
   \<not> is_user_in_vc quiet_platform 1 \<and>
   on_member_message_action quiet_platform (GuildMessageCreateEvent (Some 1)) (registry_of 1 2) =
     (Inr (), registry_of 1 2) \<and>
   is_afk_mute (snd (on_member_message_action quiet_platform (GuildMessageCreateEvent (Some 1)) (registry_of 1 2))) 1 \<and>
   unset_afk_mute quiet_platform 1 True (registry_of 1 2) = (Inr (), empty_registry)"
proof -
  have a: "on_member_message_action quiet_platform (GuildMessageCreateEvent (Some 1)) (registry_of 1 2) =
     (Inr (), registry_of 1 2)"
    by (simp add: on_member_message_action_def event_member_def unset_afk_mute_cases)
  have b: "unset_afk_mute quiet_platform 1 True (registry_of 1 2) = (Inr (), empty_registry)"
    by (simp add: unset_afk_mute_cases) (simp add: registry_of_def empty_registry_def cfg_delete_def)
  show ?thesis
    by (simp add: a b)
qed


subsection \<open>\<^verbatim>\<open>fetch_afk_mute_state\<close>\<close>

lemma unset_afk_mute_True:
  "unset_afk_mute p user True s =
     (if is_afk_mute s user then (Inr (), s\<lparr>cfg := cfg_delete user (cfg s)\<rparr>)
      else (Inl UserNotAfkMuteError, s))"
  by (simp add: unset_afk_mute_cases)

lemma set_cfg_delete: "set (cfg_delete k c) \<subseteq> set c"
  by (auto simp: cfg_delete_def AList.delete_eq)

lemma cfg_delete_middle:
  assumes "distinct (map fst (pre @ (k, r) # c))"
  shows "cfg_delete k (pre @ (k, r) # c) = pre @ c"
proof -
  have "k \<notin> fst ` set pre" and "k \<notin> fst ` set c"
    using assms by auto
  then have "AList.delete k pre = pre" and "AList.delete k c = c"
    by simp_all
  moreover have "AList.delete k (pre @ (k, r) # c) = AList.delete k pre @ AList.delete k c"
    by (simp add: AList.delete_eq)
  ultimately show ?thesis
    by (simp add: cfg_delete_def)
qed

lemma fetch_loop_frame:
  "edits (snd (fetch_loop p infos s)) = edits s \<and>
   set (cfg (snd (fetch_loop p infos s))) \<subseteq> set (cfg s)"
proof (induction infos arbitrary: s)
  case Nil
  show ?case by simp
next
  case (Cons info rest)
  show ?case
  proof (cases "fetch_member p (user_id info)")
    case None
    then show ?thesis by simp
  next
    case (Some m)
    show ?thesis
    proof (cases "drifted p m \<and> is_afk_mute s m")
      case False
      then have "fetch_loop p (info # rest) s = fetch_loop p rest s \<or>
          fetch_loop p (info # rest) s = (Inl UserNotAfkMuteError, s)"
        using Some by (auto simp: drifted_def unset_afk_mute_True split: option.splits)
      then show ?thesis
        using Cons.IH [of s] by auto
    next
      case True
      then have "fetch_loop p (info # rest) s = fetch_loop p rest (s\<lparr>cfg := cfg_delete m (cfg s)\<rparr>)"
        using Some by (auto simp: drifted_def unset_afk_mute_True split: option.splits)
      then show ?thesis
        using Cons.IH [of "s\<lparr>cfg := cfg_delete m (cfg s)\<rparr>"] set_cfg_delete [of m "cfg s"]
        by auto
    qed
  qed
qed

lemma fetch_loop_Cons_keep:
  assumes "fetch_member p (user_id info) = Some m" and "\<not> drifted p m"
  shows "fetch_loop p (info # rest) s = fetch_loop p rest s"
  using assms by (auto simp: drifted_def split: option.splits)

lemma fetch_loop_Cons_drop:
  assumes "fetch_member p (user_id info) = Some m" and "drifted p m" and "is_afk_mute s m"
  shows "fetch_loop p (info # rest) s = fetch_loop p rest (s\<lparr>cfg := cfg_delete m (cfg s)\<rparr>)"
  using assms by (auto simp: drifted_def unset_afk_mute_True split: option.splits)

lemma fetch_loop_Cons_raise:
  assumes "fetch_member p (user_id info) = Some m" and "drifted p m" and "\<not> is_afk_mute s m"
  shows "fetch_loop p (info # rest) s = (Inl UserNotAfkMuteError, s)"
  using assms by (auto simp: drifted_def unset_afk_mute_True split: option.splits)

lemma fetch_loop_sweep:
  assumes "\<forall>r \<in> set (cfg_values c). \<forall>m. fetch_member p (user_id r) = Some m \<longrightarrow> m = user_id r"
    and "wf_registry (pre @ c)" and "cfg s = pre @ c"
  shows "fetch_loop p (cfg_values c) s =
     (if \<forall>r \<in> set (cfg_values c). fetch_member p (user_id r) \<noteq> None then Inr () else Inl PlatformError,
      s\<lparr>cfg := pre @ sweep_result p c\<rparr>)"
  using assms
proof (induction c arbitrary: pre s)
  case Nil
  have "s\<lparr>cfg := cfg s\<rparr> = s" by simp
  then show ?case
    using Nil.prems(3) by (simp add: cfg_values_def)
next
  case (Cons kr c)
  obtain k r where kr: "kr = (k, r)" by (cases kr)
  have wf: "wf_registry (pre @ (k, r) # c)" and cs: "cfg s = pre @ (k, r) # c"
    using Cons.prems by (simp_all add: kr)
  have uid: "user_id r = k"
    using wf by (simp add: wf_registry_def)
  have vals: "cfg_values ((k, r) # c) = r # cfg_values c"
    by (simp add: cfg_values_def)
  have faithful: "\<forall>r \<in> set (cfg_values c). \<forall>m. fetch_member p (user_id r) = Some m \<longrightarrow> m = user_id r"
    using Cons.prems(1) by (simp add: kr vals)
  have same: "s\<lparr>cfg := pre @ (k, r) # c\<rparr> = s"
    using cs [symmetric] by simp
  show ?case
  proof (cases "fetch_member p k")
    case None
    then have "fetch_loop p (r # cfg_values c) s = (Inl PlatformError, s)"
      by (simp add: uid)
    then show ?thesis
      using None by (simp add: kr vals uid same)
  next
    case (Some m)
    then have m: "m = k"
      using Cons.prems(1) by (simp add: kr vals uid)
    have fm: "fetch_member p (user_id r) = Some k"
      using Some by (simp add: uid m)
    show ?thesis
    proof (cases "drifted p k")
      case False
      have "fetch_loop p (r # cfg_values c) s = fetch_loop p (cfg_values c) s"
        using fm False by (rule fetch_loop_Cons_keep)
      moreover have "fetch_loop p (cfg_values c) s =
          (if \<forall>r \<in> set (cfg_values c). fetch_member p (user_id r) \<noteq> None then Inr () else Inl PlatformError,
           s\<lparr>cfg := (pre @ [(k, r)]) @ sweep_result p c\<rparr>)"
        using faithful wf cs by (intro Cons.IH) simp_all
      ultimately show ?thesis
        using False fm by (simp add: kr vals uid)
    next
      case True
      have "is_afk_mute s k"
        using cs by (simp add: is_afk_mute_iff)
      with fm True
      have "fetch_loop p (r # cfg_values c) s = fetch_loop p (cfg_values c) (s\<lparr>cfg := cfg_delete k (cfg s)\<rparr>)"
        by (rule fetch_loop_Cons_drop)
      moreover have del: "cfg_delete k (cfg s) = pre @ c"
        using wf cs by (simp add: wf_registry_def cfg_delete_middle)
      moreover have "wf_registry (pre @ c)"
        using wf by (auto simp: wf_registry_def)
      then have "fetch_loop p (cfg_values c) (s\<lparr>cfg := pre @ c\<rparr>) =
          (if \<forall>r \<in> set (cfg_values c). fetch_member p (user_id r) \<noteq> None then Inr () else Inl PlatformError,
           (s\<lparr>cfg := pre @ c\<rparr>)\<lparr>cfg := pre @ sweep_result p c\<rparr>)"
        using faithful by (intro Cons.IH) simp_all
      ultimately show ?thesis
        using True fm by (simp add: kr vals uid)
    qed
  qed
qed

lemma sweep_result_fetch:
  "(\<forall>r \<in> set (cfg_values (sweep_result p c)). fetch_member p (user_id r) \<noteq> None) \<longleftrightarrow>
   (\<forall>r \<in> set (cfg_values c). fetch_member p (user_id r) \<noteq> None)"
  by (induction p c rule: sweep_result.induct) (auto simp: cfg_values_def)

lemma sweep_result_idem: "sweep_result p (sweep_result p c) = sweep_result p c"
  by (induction p c rule: sweep_result.induct) simp_all

lemma set_sweep_result: "set (sweep_result p c) \<subseteq> set c"
  by (induction p c rule: sweep_result.induct) auto

lemma sweep_result_keeps:
  "(k, r) \<in> set c \<Longrightarrow> \<not> drifted p (user_id r) \<Longrightarrow> (k, r) \<in> set (sweep_result p c)"
  by (induction p c rule: sweep_result.induct) auto

lemma sweep_result_filter:
  "\<forall>r \<in> set (cfg_values c). fetch_member p (user_id r) \<noteq> None \<Longrightarrow>
     sweep_result p c = filter (\<lambda>(k, r). \<not> drifted p (user_id r)) c"
  by (induction p c rule: sweep_result.induct) (auto simp: cfg_values_def)

lemma wf_sweep_result: "wf_registry c \<Longrightarrow> wf_registry (sweep_result p c)"
proof (induction p c rule: sweep_result.induct)
  case (1 p)
  then show ?case by simp
next
  case (2 p k r c)
  have sub: "set (sweep_result p c) \<subseteq> set c" by (rule set_sweep_result)
  have "wf_registry c" using "2.prems" by (auto simp: wf_registry_def)
  then show ?case
    using 2 sub by (auto simp: wf_registry_def)
qed

lemma fetch_afk_mute_state_sweep:
  assumes "\<forall>r \<in> set (cfg_values (cfg s)). \<forall>m. fetch_member p (user_id r) = Some m \<longrightarrow> m = user_id r"
    and "wf_registry (cfg s)"
  shows "fetch_afk_mute_state p s =
     (if \<forall>r \<in> set (cfg_values (cfg s)). fetch_member p (user_id r) \<noteq> None
      then Inr () else Inl PlatformError,
      s\<lparr>cfg := sweep_result p (cfg s)\<rparr>)"
  using fetch_loop_sweep [OF assms(1), of "[]" s] assms(2)
  by (simp add: fetch_afk_mute_state_def)

lemma rest_faithful_on:
  "rest_faithful p \<Longrightarrow> \<forall>r \<in> set rs. \<forall>m. fetch_member p (user_id r) = Some m \<longrightarrow> m = user_id r"
  by (simp add: rest_faithful_def)

lemma fetch_loop_spec:
  assumes "\<forall>r \<in> set infos. fetch_member p (user_id r) = Some (user_id r)"
  shows "fetch_loop p infos s = reconcileAll_spec p (filter (drifted p) (map user_id infos)) s"
  using assms
proof (induction infos arbitrary: s)
  case Nil
  show ?case by simp
next
  case (Cons info rest)
  have fm: "fetch_member p (user_id info) = Some (user_id info)"
    using Cons.prems by simp
  have ih: "fetch_loop p rest t = reconcileAll_spec p (filter (drifted p) (map user_id rest)) t" for t
    using Cons.prems by (intro Cons.IH) simp
  show ?case
  proof (cases "drifted p (user_id info)")
    case False
    with fm have "fetch_loop p (info # rest) s = fetch_loop p rest s"
      by (rule fetch_loop_Cons_keep)
    then show ?thesis
      using False by (simp add: ih)
  next
    case True
    show ?thesis
    proof (cases "is_afk_mute s (user_id info)")
      case muted: True
      with fm True have "fetch_loop p (info # rest) s =
          fetch_loop p rest (s\<lparr>cfg := cfg_delete (user_id info) (cfg s)\<rparr>)"
        by (rule fetch_loop_Cons_drop)
      then show ?thesis
        using True muted by (simp add: ih unset_afk_mute_True)
    next
      case False
      with fm True have "fetch_loop p (info # rest) s = (Inl UserNotAfkMuteError, s)"
        by (rule fetch_loop_Cons_raise)
      then show ?thesis
        using True False by (simp add: unset_afk_mute_True)
    qed
  qed
qed

lemma fixture_drifted [simp]:
  "drifted quiet_platform v = False"
  "drifted (voice_platform vs ok) v = (v = member vs \<and> \<not> is_guild_muted vs)"
  "drifted open_platform v = True"
  by (simp_all add: drifted_def quiet_platform_def voice_platform_def open_platform_def in_voice_def)

lemma fixture_fetch_member [simp]:
  "fetch_member quiet_platform v = Some v"
  "fetch_member (voice_platform vs ok) v = Some v"
  "fetch_member open_platform v = Some v"
  by (simp_all add: quiet_platform_def voice_platform_def open_platform_def)

lemma fixture_wf_registry [simp]:
  "wf_registry (cfg two_records)"
  "wf_registry (cfg (registry_of u m))"
  "wf_registry (cfg empty_registry)"
  by (simp_all add: wf_registry_def two_records_def registry_of_def empty_registry_def)

lemma fixture_in_voice [simp]: "is_guild_muted (in_voice u gm) = gm"
  by (simp add: in_voice_def)

lemma sweep_result_takeWhile:
  "sweep_result p c =
     filter (\<lambda>(k, r). \<not> drifted p (user_id r)) (takeWhile (\<lambda>(k, r). fetched p r) c) @
     dropWhile (\<lambda>(k, r). fetched p r) c"
  by (induction p c rule: sweep_result.induct) (simp_all add: fetched_def)

lemma fetch_loop_visited:
  assumes "rest_faithful p"
  shows "fetch_loop p infos s =
     (case reconcileAll_spec p (filter (drifted p) (map user_id (takeWhile (fetched p) infos))) s of
        (Inl e, s1) \<Rightarrow> (Inl e, s1)
      | (Inr u, s1) \<Rightarrow> (if \<forall>r \<in> set infos. fetched p r then Inr () else Inl PlatformError, s1))"
proof (induction infos arbitrary: s)
  case Nil
  show ?case by simp
next
  case (Cons info rest)
  let ?R = "\<lambda>infos s. case reconcileAll_spec p
        (filter (drifted p) (map user_id (takeWhile (fetched p) infos))) s of
        (Inl e, s1) \<Rightarrow> (Inl e, s1)
      | (Inr u, s1) \<Rightarrow>
          (if \<forall>r \<in> set infos. fetched p r then Inr () else Inl PlatformError :: error + unit, s1)"
  have ih: "fetch_loop p rest t = ?R rest t" for t
    by (rule Cons.IH)
  show ?case
  proof (cases "fetch_member p (user_id info)")
    case None
    then show ?thesis by (simp add: fetched_def)
  next
    case (Some m)
    then have "m = user_id info"
      using assms by (simp add: rest_faithful_def)
    with Some have fm: "fetch_member p (user_id info) = Some (user_id info)"
      by simp
    then have fetched: "fetched p info"
      by (simp add: fetched_def)
    show ?thesis
    proof (cases "drifted p (user_id info)")
      case False
      with fm have "fetch_loop p (info # rest) s = fetch_loop p rest s"
        by (rule fetch_loop_Cons_keep)
      also have "\<dots> = ?R rest s"
        by (rule ih)
      also have "\<dots> = ?R (info # rest) s"
        using False fetched by auto
      finally show ?thesis .
    next
      case True
      show ?thesis
      proof (cases "is_afk_mute s (user_id info)")
        case muted: True
        let ?s1 = "s\<lparr>cfg := cfg_delete (user_id info) (cfg s)\<rparr>"
        from fm True muted have "fetch_loop p (info # rest) s = fetch_loop p rest ?s1"
          by (rule fetch_loop_Cons_drop)
        also have "\<dots> = ?R rest ?s1"
          by (rule ih)
        also have "\<dots> = ?R (info # rest) s"
          using True muted fetched by (auto simp add: unset_afk_mute_True)
        finally show ?thesis .
      next
        case False
        with fm True have "fetch_loop p (info # rest) s = (Inl UserNotAfkMuteError, s)"
          by (rule fetch_loop_Cons_raise)
        also have "\<dots> = ?R (info # rest) s"
          using True False fetched by (simp add: unset_afk_mute_True)
        finally show ?thesis .
      qed
    qed
  qed
qed

lemma fixture_unreachable [simp]:
  "drifted (unreachable_platform g) v = True"
  "fetch_member (unreachable_platform g) v = (if v = g then None else Some v)"
  "rest_faithful (unreachable_platform g)"
  "rest_faithful (voice_platform vs ok)"
  "rest_faithful quiet_platform"
  by (simp_all add: drifted_def rest_faithful_def unreachable_platform_def voice_platform_def
      quiet_platform_def in_voice_def)

lemma fixture_two_records:
  "cfg_values (cfg two_records) = [\<lparr>user_id = 1, muter_id = 2\<rparr>, \<lparr>user_id = 3, muter_id = 2\<rparr>]"
  "is_afk_mute two_records v = (v = 1 \<or> v = 3)"
  "two_records\<lparr>cfg := cfg_delete 1 (cfg two_records)\<rparr> = registry_of 3 2"
  by (auto simp add: cfg_values_def two_records_def is_afk_mute_iff registry_of_def cfg_delete_def)

text \<open>
  C8, as the code has it. The sweep visits the enumerated records in order and fetches
  the member of each first; the first \<^verbatim>\<open>fetch_member\<close> call that raises ends the sweep
  with that failure, and that record and all later ones are not visited. For the records
  visited, \<^verbatim>\<open>fetch_afk_mute_state\<close> is the sequence of
  \<open>clear(user, allowNoPresence=true)\<close> calls for exactly the users who are in voice and
  not guild-muted, in the order of enumeration. On a store written by \<^verbatim>\<open>set_afk_mute\<close>
  it leaves the store with exactly the records of those users removed, and succeeds
  exactly when every record was fetched. It is idempotent: on such a store, running the
  sweep again on the state it left has the same outcome and leaves that state as it is.
  When every record is fetched, the records visited are all the records of the store.
\<close>

theorem fetch_afk_mute_state_reconciles:
  "(rest_faithful p \<longrightarrow>
      fetch_afk_mute_state p s =
        (case reconcileAll_spec p
                (filter (drifted p) (map user_id (takeWhile (fetched p) (cfg_values (cfg s))))) s of
           (Inl e, s1) \<Rightarrow> (Inl e, s1)
         | (Inr u, s1) \<Rightarrow>
             (if \<forall>r \<in> set (cfg_values (cfg s)). fetched p r then Inr () else Inl PlatformError, s1))) \<and>
   (wf_registry (cfg s) \<and> rest_faithful p \<longrightarrow>
      fetch_afk_mute_state p s =
        (if \<forall>r \<in> set (cfg_values (cfg s)). fetched p r then Inr () else Inl PlatformError,
         s\<lparr>cfg := filter (\<lambda>(k, r). \<not> drifted p (user_id r)) (takeWhile (\<lambda>(k, r). fetched p r) (cfg s)) @
                  dropWhile (\<lambda>(k, r). fetched p r) (cfg s)\<rparr>)) \<and>
   (wf_registry (cfg s) \<and> rest_faithful p \<longrightarrow>
      fetch_afk_mute_state p (snd (fetch_afk_mute_state p s)) = fetch_afk_mute_state p s) \<and>
   ((\<forall>r \<in> set (cfg_values (cfg s)). fetch_member p (user_id r) = Some (user_id r)) \<longrightarrow>
      fetch_afk_mute_state p s =
        reconcileAll_spec p (filter (drifted p) (map user_id (cfg_values (cfg s)))) s) \<and>
   (wf_registry (cfg s) \<and>
    (\<forall>r \<in> set (cfg_values (cfg s)). fetch_member p (user_id r) = Some (user_id r)) \<longrightarrow>
      fetch_afk_mute_state p s =
        (Inr (), s\<lparr>cfg := filter (\<lambda>(k, r). \<not> drifted p (user_id r)) (cfg s)\<rparr>))"
proof (intro conjI impI)
  assume "rest_faithful p"
  then show "fetch_afk_mute_state p s =
      (case reconcileAll_spec p
              (filter (drifted p) (map user_id (takeWhile (fetched p) (cfg_values (cfg s))))) s of
         (Inl e, s1) \<Rightarrow> (Inl e, s1)
       | (Inr u, s1) \<Rightarrow>
           (if \<forall>r \<in> set (cfg_values (cfg s)). fetched p r then Inr () else Inl PlatformError, s1))"
    unfolding fetch_afk_mute_state_def by (rule fetch_loop_visited)
next
  assume a: "wf_registry (cfg s) \<and> rest_faithful p"
  have wf: "wf_registry (cfg s)" and rf: "rest_faithful p"
    using a by simp_all
  have e1: "fetch_afk_mute_state p s =
      (if \<forall>r \<in> set (cfg_values (cfg s)). fetch_member p (user_id r) \<noteq> None
       then Inr () else Inl PlatformError, s\<lparr>cfg := sweep_result p (cfg s)\<rparr>)"
    using rest_faithful_on [OF rf] wf by (rule fetch_afk_mute_state_sweep)
  have e2: "(\<forall>r \<in> set (cfg_values (cfg s)). fetch_member p (user_id r) \<noteq> None) =
      (\<forall>r \<in> set (cfg_values (cfg s)). fetched p r)"
    by (simp add: fetched_def)
  show "fetch_afk_mute_state p s =
      (if \<forall>r \<in> set (cfg_values (cfg s)). fetched p r then Inr () else Inl PlatformError,
       s\<lparr>cfg := filter (\<lambda>(k, r). \<not> drifted p (user_id r)) (takeWhile (\<lambda>(k, r). fetched p r) (cfg s)) @
                dropWhile (\<lambda>(k, r). fetched p r) (cfg s)\<rparr>)"
    unfolding e1 e2 sweep_result_takeWhile by (rule refl)
next
  assume a: "wf_registry (cfg s) \<and> rest_faithful p"
  let ?s1 = "s\<lparr>cfg := sweep_result p (cfg s)\<rparr>"
  let ?out = "\<lambda>c. if \<forall>r \<in> set (cfg_values c). fetch_member p (user_id r) \<noteq> None
      then Inr () else (Inl PlatformError :: error + unit)"
  have wf: "wf_registry (cfg s)" and rf: "rest_faithful p"
    using a by simp_all
  have one: "fetch_afk_mute_state p s = (?out (cfg s), ?s1)"
    using rest_faithful_on [OF rf] wf by (rule fetch_afk_mute_state_sweep)
  have wf1: "wf_registry (cfg ?s1)"
    using wf by (simp add: wf_sweep_result)
  have "fetch_afk_mute_state p ?s1 = (?out (cfg ?s1), ?s1\<lparr>cfg := sweep_result p (cfg ?s1)\<rparr>)"
    using rest_faithful_on [OF rf] wf1 by (rule fetch_afk_mute_state_sweep)
  moreover have "?s1\<lparr>cfg := sweep_result p (cfg ?s1)\<rparr> = ?s1"
    by (simp add: sweep_result_idem)
  moreover have "?out (cfg ?s1) = ?out (cfg s)"
    using sweep_result_fetch [of p "cfg s"] by (simp del: not_None_eq)
  ultimately have "fetch_afk_mute_state p ?s1 = (?out (cfg s), ?s1)"
    by (simp only:)
  then show "fetch_afk_mute_state p (snd (fetch_afk_mute_state p s)) = fetch_afk_mute_state p s"
    by (simp only: one snd_conv)
next
  assume "\<forall>r \<in> set (cfg_values (cfg s)). fetch_member p (user_id r) = Some (user_id r)"
  then show "fetch_afk_mute_state p s =
      reconcileAll_spec p (filter (drifted p) (map user_id (cfg_values (cfg s)))) s"
    unfolding fetch_afk_mute_state_def by (rule fetch_loop_spec)
next
  assume a: "wf_registry (cfg s) \<and>
    (\<forall>r \<in> set (cfg_values (cfg s)). fetch_member p (user_id r) = Some (user_id r))"
  then have ok: "\<forall>r \<in> set (cfg_values (cfg s)). fetch_member p (user_id r) \<noteq> None"
    by simp
  then have "sweep_result p (cfg s) = filter (\<lambda>(k, r). \<not> drifted p (user_id r)) (cfg s)"
    by (rule sweep_result_filter)
  moreover have "fetch_afk_mute_state p s = (Inr (), s\<lparr>cfg := sweep_result p (cfg s)\<rparr>)"
    using a ok by (subst fetch_afk_mute_state_sweep) simp_all
  ultimately show "fetch_afk_mute_state p s =
      (Inr (), s\<lparr>cfg := filter (\<lambda>(k, r). \<not> drifted p (user_id r)) (cfg s)\<rparr>)"
    by simp
qed

theorem fetch_afk_mute_state_reconciles_witness:
  "fetch_afk_mute_state (unreachable_platform 3) two_records =
     (case reconcileAll_spec (unreachable_platform 3) [1] two_records of
        (Inl e, s1) \<Rightarrow> (Inl e, s1)
      | (Inr u, s1) \<Rightarrow> (Inl PlatformError, s1)) \<and>
   fetch_afk_mute_state (unreachable_platform 3) two_records = (Inl PlatformError, registry_of 3 2) \<and>
   fetch_afk_mute_state (unreachable_platform 3)
       (snd (fetch_afk_mute_state (unreachable_platform 3) two_records)) =
     fetch_afk_mute_state (unreachable_platform 3) two_records \<and>
   fetch_afk_mute_state (voice_platform (in_voice 1 False) True) two_records =
     reconcileAll_spec (voice_platform (in_voice 1 False) True) [1] two_records \<and>
   fetch_afk_mute_state (voice_platform (in_voice 1 False) True) two_records =
     (Inr (), registry_of 3 2)"
proof (intro conjI)
  let ?u = "unreachable_platform 3"
  let ?p = "voice_platform (in_voice 1 False) True"
  have f1: "fetched ?u \<lparr>user_id = 1, muter_id = 2\<rparr>" and f3: "\<not> fetched ?u \<lparr>user_id = 3, muter_id = 2\<rparr>"
    by (simp_all add: fetched_def)
  show "fetch_afk_mute_state ?u two_records =
     (case reconcileAll_spec ?u [1] two_records of
        (Inl e, s1) \<Rightarrow> (Inl e, s1)
      | (Inr u, s1) \<Rightarrow> (Inl PlatformError, s1))"
    using fetch_afk_mute_state_reconciles [of ?u two_records, THEN conjunct1]
    by (simp add: f1 f3 fixture_two_records)
  have "fetch_afk_mute_state ?u two_records =
      (Inl PlatformError,
       two_records\<lparr>cfg := filter (\<lambda>(k, r). \<not> drifted ?u (user_id r))
           (takeWhile (\<lambda>(k, r). fetched ?u r) (cfg two_records)) @
         dropWhile (\<lambda>(k, r). fetched ?u r) (cfg two_records)\<rparr>)"
    using fetch_afk_mute_state_reconciles [of ?u two_records, THEN conjunct2, THEN conjunct1]
    by (simp add: f1 f3 fixture_two_records)
  then show "fetch_afk_mute_state ?u two_records = (Inl PlatformError, registry_of 3 2)"
    by (simp add: two_records_def registry_of_def f1 f3)
  show "fetch_afk_mute_state ?u (snd (fetch_afk_mute_state ?u two_records)) =
      fetch_afk_mute_state ?u two_records"
    using fetch_afk_mute_state_reconciles [of ?u two_records, THEN conjunct2, THEN conjunct2, THEN conjunct1]
    by simp
  show "fetch_afk_mute_state ?p two_records = reconcileAll_spec ?p [1] two_records"
    using fetch_afk_mute_state_reconciles [of ?p two_records,
        THEN conjunct2, THEN conjunct2, THEN conjunct2, THEN conjunct1]
    by (simp add: fixture_two_records)
  have "fetch_afk_mute_state ?p two_records =
      (Inr (), two_records\<lparr>cfg := filter (\<lambda>(k, r). \<not> drifted ?p (user_id r)) (cfg two_records)\<rparr>)"
    using fetch_afk_mute_state_reconciles [of ?p two_records,
        THEN conjunct2, THEN conjunct2, THEN conjunct2, THEN conjunct2]
    by (simp add: fixture_two_records)
  then show "fetch_afk_mute_state ?p two_records = (Inr (), registry_of 3 2)"
    by (simp add: two_records_def registry_of_def)
qed

text \<open>
  C8 as stated has the sweep clear every enumerated user who is in voice and not
  guild-muted. Users 1 and 3 both are, and both have a record; \<^verbatim>\<open>fetch_member\<close> raises
  for user 3. The sweep clears user 1 and then ends with the failure: the record of
  user 3 is still there.
\<close>

theorem sweep_failing_fetch_counterexample:
  "is_afk_mute two_records 1 \<and> drifted (unreachable_platform 3) 1 \<and>
   is_afk_mute two_records 3 \<and> drifted (unreachable_platform 3) 3 \<and>
   fetch_afk_mute_state (unreachable_platform 3) two_records = (Inl PlatformError, registry_of 3 2) \<and>
   is_afk_mute (registry_of 3 2) 3"
proof -
  have "get_voice_state (unreachable_platform 3) 1 = Some (in_voice 1 False)"
    by (simp add: unreachable_platform_def)
  then have "fetch_afk_mute_state (unreachable_platform 3) two_records = (Inl PlatformError, registry_of 3 2)"
    by (simp add: fetch_afk_mute_state_def unset_afk_mute_True fixture_two_records)
  then show ?thesis
    by (simp add: fixture_two_records)
qed


text \<open>
  C10. The sweep only shrinks the store and issues no mute or unmute call. For every
  starting state and platform, every key and record in the store after the sweep was
  there, with that record, before it, and the trace of \<^verbatim>\<open>edit\<close> calls is the same
  before and after. On a store written by \<^verbatim>\<open>set_afk_mute\<close>, the record of every user
  who is not in voice, or whose voice state is guild-muted, is still there afterwards,
  unchanged.
\<close>

theorem fetch_afk_mute_state_frame:
  "set (cfg (snd (fetch_afk_mute_state p s))) \<subseteq> set (cfg s) \<and>
   edits (snd (fetch_afk_mute_state p s)) = edits s \<and>
   (wf_registry (cfg s) \<and> rest_faithful p \<longrightarrow>
      (\<forall>(k, r) \<in> set (cfg s). \<not> drifted p (user_id r) \<longrightarrow>
         (k, r) \<in> set (cfg (snd (fetch_afk_mute_state p s)))))"
proof (intro conjI impI)
  show "set (cfg (snd (fetch_afk_mute_state p s))) \<subseteq> set (cfg s)"
    using fetch_loop_frame [of p "cfg_values (cfg s)" s] by (simp add: fetch_afk_mute_state_def)
  show "edits (snd (fetch_afk_mute_state p s)) = edits s"
    using fetch_loop_frame [of p "cfg_values (cfg s)" s] by (simp add: fetch_afk_mute_state_def)
next
  assume a: "wf_registry (cfg s) \<and> rest_faithful p"
  have wf: "wf_registry (cfg s)" and rf: "rest_faithful p"
    using a by simp_all
  have "snd (fetch_afk_mute_state p s) = s\<lparr>cfg := sweep_result p (cfg s)\<rparr>"
    using fetch_afk_mute_state_sweep [OF rest_faithful_on [OF rf] wf] by simp
  then have "cfg (snd (fetch_afk_mute_state p s)) = sweep_result p (cfg s)"
    by simp
  then show "\<forall>(k, r) \<in> set (cfg s). \<not> drifted p (user_id r) \<longrightarrow>
      (k, r) \<in> set (cfg (snd (fetch_afk_mute_state p s)))"
    by (auto intro: sweep_result_keeps)
qed

theorem fetch_afk_mute_state_frame_witness:
  "set (cfg (snd (fetch_afk_mute_state (voice_platform (in_voice 1 False) True) two_records)))
     \<subseteq> set (cfg two_records) \<and>
   edits (snd (fetch_afk_mute_state (voice_platform (in_voice 1 False) True) two_records)) = [] \<and>
   (3, \<lparr>user_id = 3, muter_id = 2\<rparr>)
     \<in> set (cfg (snd (fetch_afk_mute_state (voice_platform (in_voice 1 False) True) two_records)))"
proof (intro conjI)
  let ?p = "voice_platform (in_voice 1 False) True"
  note frame = fetch_afk_mute_state_frame [of ?p two_records]
  show "set (cfg (snd (fetch_afk_mute_state ?p two_records))) \<subseteq> set (cfg two_records)"
    using frame by (rule conjunct1)
  show "edits (snd (fetch_afk_mute_state ?p two_records)) = []"
    using frame [THEN conjunct2, THEN conjunct1] by (simp add: two_records_def)
  have "rest_faithful ?p"
    by (simp add: rest_faithful_def)
  then have "\<forall>(k, r) \<in> set (cfg two_records). \<not> drifted ?p (user_id r) \<longrightarrow>
      (k, r) \<in> set (cfg (snd (fetch_afk_mute_state ?p two_records)))"
    using frame [THEN conjunct2, THEN conjunct2] by simp
  moreover have "(3, \<lparr>user_id = 3, muter_id = 2\<rparr>) \<in> set (cfg two_records)"
    by (simp add: two_records_def)
  ultimately show "(3, \<lparr>user_id = 3, muter_id = 2\<rparr>)
      \<in> set (cfg (snd (fetch_afk_mute_state ?p two_records)))"
    by fastforce
qed

text \<open>
  C9, as the code has it. The loop of the sweep has no exception handler. When it
  reaches an enumerated record whose user is in voice and not guild-muted, and the store
  no longer holds a record for that user, \<^verbatim>\<open>unset_afk_mute\<close> raises
  \<open>UserNotAfkMuteError\<close>, and the sweep passes the error on to its caller and stops: the
  state stays as it is and the remaining enumerated records are not visited.
\<close>

theorem fetch_loop_not_muted_propagates:
  assumes "fetch_member p (user_id info) = Some m" and "get_voice_state p m = Some vs"
    and "\<not> is_guild_muted vs" and "\<not> is_afk_mute s m"
  shows "fetch_loop p (info # rest) s = (Inl UserNotAfkMuteError, s)"
  using assms by (simp add: unset_afk_mute_True)


theorem fetch_loop_not_muted_propagates_witness:
  "fetch_loop open_platform [\<lparr>user_id = 1, muter_id = 2\<rparr>, \<lparr>user_id = 3, muter_id = 2\<rparr>]
     (registry_of 3 2) = (Inl UserNotAfkMuteError, registry_of 3 2)"
proof -
  have "get_voice_state open_platform 1 = Some (in_voice 1 False)"
    by (simp add: open_platform_def)
  then show ?thesis
    by (rule fetch_loop_not_muted_propagates [of open_platform "\<lparr>user_id = 1, muter_id = 2\<rparr>" 1 _
          "registry_of 3 2", rotated]) simp_all
qed

text \<open>
  C9 as stated has the sweep swallow that error. The sweep enumerates the records of
  users 1 and 3, both in voice and not guild-muted, and then awaits
  \<^verbatim>\<open>fetch_member\<close>; meanwhile another listener clears user 1. The loop over the
  enumerated records, run on the store as it is now, raises \<open>UserNotAfkMuteError\<close> at the
  record of user 1, and the record of user 3 stays.
\<close>

theorem sweep_not_muted_counterexample:
  "cfg_values (cfg two_records) = [\<lparr>user_id = 1, muter_id = 2\<rparr>, \<lparr>user_id = 3, muter_id = 2\<rparr>] \<and>
   snd (unset_afk_mute open_platform 1 False two_records) = (registry_of 3 2)\<lparr>edits := [(1, False)]\<rparr> \<and>
   fetch_loop open_platform [\<lparr>user_id = 1, muter_id = 2\<rparr>, \<lparr>user_id = 3, muter_id = 2\<rparr>]
     ((registry_of 3 2)\<lparr>edits := [(1, False)]\<rparr>) =
     (Inl UserNotAfkMuteError, (registry_of 3 2)\<lparr>edits := [(1, False)]\<rparr>)"
proof (intro conjI)
  show "cfg_values (cfg two_records) = [\<lparr>user_id = 1, muter_id = 2\<rparr>, \<lparr>user_id = 3, muter_id = 2\<rparr>]"
    by (simp add: cfg_values_def two_records_def)
  have "is_afk_mute two_records 1" and "is_user_in_vc open_platform 1" and "edit_ok open_platform 1 False"
    by (simp_all add: is_afk_mute_iff two_records_def is_user_in_vc_def open_platform_def)
  then show "snd (unset_afk_mute open_platform 1 False two_records) = (registry_of 3 2)\<lparr>edits := [(1, False)]\<rparr>"
    by (simp add: unset_afk_mute_cases) (simp add: two_records_def registry_of_def cfg_delete_def)
  have "get_voice_state open_platform 1 = Some (in_voice 1 False)"
    by (simp add: open_platform_def)
  then show "fetch_loop open_platform [\<lparr>user_id = 1, muter_id = 2\<rparr>, \<lparr>user_id = 3, muter_id = 2\<rparr>]
     ((registry_of 3 2)\<lparr>edits := [(1, False)]\<rparr>) =
     (Inl UserNotAfkMuteError, (registry_of 3 2)\<lparr>edits := [(1, False)]\<rparr>)"
    by (simp add: unset_afk_mute_True)
qed


subsection \<open>The registry invariant\<close>

lemma set_update_subset: "set (AList.update k v c) \<subseteq> insert (k, v) (set c)"
  by (induction c) auto

lemma wf_cfg_set:
  assumes "wf_registry c"
  shows "wf_registry (cfg_set k \<lparr>user_id = k, muter_id = m\<rparr> c)"
proof -
  have "distinct (map fst (AList.update k \<lparr>user_id = k, muter_id = m\<rparr> c))"
    using assms by (simp add: wf_registry_def distinct_update)
  moreover have "\<forall>(k', r) \<in> set (AList.update k \<lparr>user_id = k, muter_id = m\<rparr> c). user_id r = k'"
    using assms set_update_subset [of k "\<lparr>user_id = k, muter_id = m\<rparr>" c]
    by (auto simp: wf_registry_def)
  ultimately show ?thesis
    by (simp add: wf_registry_def cfg_set_def)
qed

lemma wf_cfg_delete:
  assumes "wf_registry c"
  shows "wf_registry (cfg_delete k c)"
proof -
  have "distinct (map fst (AList.delete k c))"
    using assms by (simp add: wf_registry_def distinct_delete)
  moreover have "set (AList.delete k c) \<subseteq> set c"
    by (auto simp: AList.delete_eq)
  ultimately show ?thesis
    using assms by (auto simp: wf_registry_def cfg_delete_def)
qed

lemma wf_run_op:
  assumes "wf_registry (cfg s)"
  shows "wf_registry (cfg (run_op p x s))"
proof (cases x)
  case (Apply u m)
  then show ?thesis
    using assms by (simp add: set_afk_mute_cases wf_cfg_set)
next
  case (Clear u b)
  then show ?thesis
    using assms by (simp add: unset_afk_mute_cases wf_cfg_delete)
qed

lemma wf_run_ops: "wf_registry (cfg s) \<Longrightarrow> wf_registry (cfg (run_ops ops s))"
proof (induction ops arbitrary: s)
  case Nil
  then show ?case by simp
next
  case (Cons px ops)
  obtain p x where px: "px = (p, x)" by (cases px)
  have "wf_registry (cfg (run_op p x s))"
    using Cons.prems by (rule wf_run_op)
  then have "wf_registry (cfg (run_ops ops (run_op p x s)))"
    by (rule Cons.IH)
  then show ?case by (simp add: px)
qed

lemma wf_record_exists:
  assumes "wf_registry (cfg s)"
  shows "is_afk_mute s u \<longleftrightarrow> record_exists s u"
proof
  assume "is_afk_mute s u"
  then obtain r where "(u, r) \<in> set (cfg s)"
    by (auto simp: is_afk_mute_iff)
  moreover from this have "user_id r = u"
    using assms by (auto simp: wf_registry_def)
  ultimately show "record_exists s u"
    by (force simp: record_exists_def cfg_values_def)
next
  assume "record_exists s u"
  then obtain k r where kr: "(k, r) \<in> set (cfg s)" and "user_id r = u"
    by (auto simp: record_exists_def cfg_values_def)
  moreover from kr have "user_id r = k"
    using assms by (auto simp: wf_registry_def)
  ultimately show "is_afk_mute s u"
    by (force simp: is_afk_mute_iff)
qed

lemma is_afk_mute_Apply:
  "is_afk_mute (run_op p (Apply u m) s) v \<longleftrightarrow>
     is_afk_mute s v \<or> (v = u \<and> \<not> isl (fst (set_afk_mute p u m s)))"
  by (auto simp: set_afk_mute_cases is_afk_mute_cfg_set)

lemma is_afk_mute_Clear:
  "is_afk_mute (run_op p (Clear u b) s) v \<longleftrightarrow>
     is_afk_mute s v \<and> \<not> (v = u \<and> \<not> isl (fst (unset_afk_mute p u b s)))"
  by (auto simp: unset_afk_mute_cases is_afk_mute_cfg_delete)

text \<open>
  C1. The membership invariant. \<^verbatim>\<open>is_afk_mute\<close> is a read of the store and returns
  nothing but its answer. Starting from a store written by \<^verbatim>\<open>set_afk_mute\<close> (the empty
  store is one), after any sequence of \<^verbatim>\<open>set_afk_mute\<close> and \<^verbatim>\<open>unset_afk_mute\<close> calls,
  against any platforms and whether the calls succeed or raise, the store is again of
  that kind and \<^verbatim>\<open>is_afk_mute(user)\<close> holds exactly when the store enumerates a record for
  that user. Each call changes the answer for exactly its own user and only when it
  succeeds: after \<^verbatim>\<open>set_afk_mute(u, m)\<close> the users for whom \<^verbatim>\<open>is_afk_mute\<close> holds are
  those before plus \<open>u\<close> if the call succeeded; after \<^verbatim>\<open>unset_afk_mute(u)\<close> they are
  those before minus \<open>u\<close> if the call succeeded.
\<close>

theorem registry_membership_invariant:
  assumes "wf_registry (cfg s)"
  shows "wf_registry (cfg (run_ops ops s)) \<and>
    (\<forall>u. is_afk_mute (run_ops ops s) u \<longleftrightarrow> record_exists (run_ops ops s) u) \<and>
    (\<forall>p u m v. is_afk_mute (run_op p (Apply u m) s) v \<longleftrightarrow>
       is_afk_mute s v \<or> (v = u \<and> \<not> isl (fst (set_afk_mute p u m s)))) \<and>
    (\<forall>p u b v. is_afk_mute (run_op p (Clear u b) s) v \<longleftrightarrow>
       is_afk_mute s v \<and> \<not> (v = u \<and> \<not> isl (fst (unset_afk_mute p u b s))))"
proof (intro conjI allI)
  show wf: "wf_registry (cfg (run_ops ops s))"
    using assms by (rule wf_run_ops)
  show "is_afk_mute (run_ops ops s) u \<longleftrightarrow> record_exists (run_ops ops s) u" for u
    using wf by (rule wf_record_exists)
  show "is_afk_mute (run_op p (Apply u m) s) v \<longleftrightarrow>
       is_afk_mute s v \<or> (v = u \<and> \<not> isl (fst (set_afk_mute p u m s)))" for p u m v
    by (rule is_afk_mute_Apply)
  show "is_afk_mute (run_op p (Clear u b) s) v \<longleftrightarrow>
       is_afk_mute s v \<and> \<not> (v = u \<and> \<not> isl (fst (unset_afk_mute p u b s)))" for p u b v
    by (rule is_afk_mute_Clear)
qed

theorem registry_membership_invariant_witness:
  "wf_registry (cfg empty_registry) \<and>
   run_ops [(quiet_platform, Apply 1 2), (quiet_platform, Apply 3 2), (quiet_platform, Clear 1 True)]
     empty_registry = registry_of 3 2 \<and>
   is_afk_mute (registry_of 3 2) 3 \<and> record_exists (registry_of 3 2) 3 \<and>
   \<not> is_afk_mute (registry_of 3 2) 1 \<and> \<not> record_exists (registry_of 3 2) 1"
proof -
  let ?ops = "[(quiet_platform, Apply 1 2), (quiet_platform, Apply 3 2), (quiet_platform, Clear 1 True)]"
  have wf: "wf_registry (cfg empty_registry)"
    by simp
  have s1: "run_op quiet_platform (Apply 1 2) empty_registry = registry_of 1 2"
    by (simp add: set_afk_mute_cases) (simp add: empty_registry_def registry_of_def cfg_set_def)
  have s2: "run_op quiet_platform (Apply 3 2) (registry_of 1 2) = two_records"
    by (simp add: set_afk_mute_cases) (simp add: two_records_def registry_of_def cfg_set_def)
  have "is_afk_mute two_records 1"
    by (simp add: is_afk_mute_iff two_records_def)
  then have s3: "run_op quiet_platform (Clear 1 True) two_records = registry_of 3 2"
    by (simp add: unset_afk_mute_cases) (simp add: two_records_def registry_of_def cfg_delete_def)
  have run: "run_ops ?ops empty_registry = registry_of 3 2"
    by (simp add: s1 s2 s3 del: run_op.simps)
  have "\<forall>u. is_afk_mute (run_ops ?ops empty_registry) u \<longleftrightarrow> record_exists (run_ops ?ops empty_registry) u"
    using registry_membership_invariant [OF wf, of ?ops] by (rule conjunct2 [THEN conjunct1])
  then have inv: "\<forall>u. is_afk_mute (registry_of 3 2) u \<longleftrightarrow> record_exists (registry_of 3 2) u"
    unfolding run .
  have "is_afk_mute (registry_of 3 2) 3" and "\<not> is_afk_mute (registry_of 3 2) 1"
    by simp_all
  then have "record_exists (registry_of 3 2) 3" and "\<not> record_exists (registry_of 3 2) 1"
    using inv by blast+
  then show ?thesis
    using wf run by simp
qed


end
